theory Spec2Isabelle
  imports
    Main
    "HOL-Library.AList"
    "HOL-Library.Char_ord"
    "HOL-Library.List_Lexorder"
    "HOL-Library.Product_Lexorder"
begin

section \<open>MassMessage list updater: pages, users and titles\<close>

text \<open>
  The bot of \<^verbatim>\<open>enwiki/massmessage_list_updater.py\<close> works on one site, the English
  Wikipedia. A page object of the wiki library is identified there by its canonical title, so
  a page is modelled by that title (namespace prefix included), and a user by the user name
  (the title of the user page without its namespace). Titles are taken in canonical form: the
  normalisation done by the library's page constructor is not modelled.
\<close>

type_synonym title = string
type_synonym page = string
type_synonym username = string
type_synonym groupname = string

text \<open>The exceptions that leave the functions modelled here.\<close>

datatype error = TypeError | ValueError | AttributeError | InvalidTitleError | RegexError

text \<open>The namespaces of the site by their canonical names: the two virtual ones, the sixteen
  every wiki has, and the ones the English Wikipedia has or has had beside them.\<close>

definition namespaces :: "(string \<times> int) list" where
  "namespaces =
    [(''Media'', - 2), (''Special'', - 1),
     (''Talk'', 1), (''User'', 2), (''User talk'', 3), (''Wikipedia'', 4),
     (''Wikipedia talk'', 5), (''File'', 6), (''File talk'', 7), (''MediaWiki'', 8),
     (''MediaWiki talk'', 9), (''Template'', 10), (''Template talk'', 11), (''Help'', 12),
     (''Help talk'', 13), (''Category'', 14), (''Category talk'', 15),
     (''Portal'', 100), (''Portal talk'', 101), (''Book'', 108), (''Book talk'', 109),
     (''Draft'', 118), (''Draft talk'', 119), (''MOS'', 126), (''MOS talk'', 127),
     (''Course'', 442), (''Course talk'', 443), (''Institution'', 444),
     (''Institution talk'', 445), (''Education Program'', 446),
     (''Education Program talk'', 447), (''TimedText'', 710), (''TimedText talk'', 711),
     (''Module'', 828), (''Module talk'', 829), (''Event'', 1728), (''Event talk'', 1729),
     (''Gadget'', 2300), (''Gadget talk'', 2301), (''Gadget definition'', 2302),
     (''Gadget definition talk'', 2303), (''Topic'', 2600)]"

text \<open>\<^verbatim>\<open>page.namespace().id\<close>: the number of the prefix before the first colon, 0 (the
  main namespace) when the title has no colon or the prefix is no namespace.\<close>

definition namespace_id :: "page \<Rightarrow> int" where
  "namespace_id p =
    (if CHR '':'' \<in> set p
     then (case map_of namespaces (takeWhile (\<lambda>c. c \<noteq> CHR '':'') p) of
             Some n \<Rightarrow> n | None \<Rightarrow> 0)
     else 0)"

text \<open>\<^verbatim>\<open>page.title(with_ns=False)\<close>.\<close>

definition title_without_ns :: "page \<Rightarrow> string" where
  "title_without_ns p =
    (if namespace_id p = 0 then p
     else drop (Suc (length (takeWhile (\<lambda>c. c \<noteq> CHR '':'') p))) p)"

definition ns_prefix :: "int \<Rightarrow> string" where
  "ns_prefix n =
    (case map_of (map (\<lambda>(s, i). (i, s)) namespaces) n of
       Some s \<Rightarrow> s @ '':'' | None \<Rightarrow> [])"

text \<open>\<^verbatim>\<open>page.isTalkPage()\<close>: an odd namespace number that is not negative.
  \<^verbatim>\<open>page.toggleTalkPage()\<close> is called for pages of the namespaces 2 and 3 only; it is given
  here for the namespaces from 0 on.\<close>

definition isTalkPage :: "page \<Rightarrow> bool" where
  "isTalkPage p = (0 \<le> namespace_id p \<and> namespace_id p mod 2 = 1)"

definition toggleTalkPage :: "page \<Rightarrow> page" where
  "toggleTalkPage p =
    (if isTalkPage p then ns_prefix (namespace_id p - 1) @ title_without_ns p
     else ns_prefix (namespace_id p + 1) @ title_without_ns p)"

text \<open>\<^verbatim>\<open>pywikibot.User(page)\<close> for a page of the user namespace: the user of that name.
  \<^verbatim>\<open>user.title()\<close> and \<^verbatim>\<open>user.toggleTalkPage()\<close> give the user page and the user's
  talk page back.\<close>

definition User :: "page \<Rightarrow> username" where
  "User p = title_without_ns p"

definition user_title :: "username \<Rightarrow> page" where
  "user_title u = ''User:'' @ u"

definition user_talk :: "username \<Rightarrow> page" where
  "user_talk u = toggleTalkPage (user_title u)"

subsection \<open>The two regular expressions\<close>

text \<open>\<^verbatim>\<open>re.sub(r'^([^/]+).*', r'\1', title)\<close>: the title up to its first slash. The
  pattern needs one character other than a slash at the start, so a title that is empty or
  starts with a slash is left as it is (titles hold no line break, which \<^verbatim>\<open>.\<close> would
  not cross).\<close>

definition base_title :: "title \<Rightarrow> title" where
  "base_title t =
    (case t of
       [] \<Rightarrow> t
     | c # _ \<Rightarrow> if c = CHR ''/'' then t else takeWhile (\<lambda>c. c \<noteq> CHR ''/'') t)"

text \<open>The second call,
  \<^verbatim>\<open>re.sub(r':{}\b'.format(re.escape(old)), ':{}'.format(new), title)\<close>, is a parameter
  \<open>re_sub old new title\<close> of the functions below: what the regular expression library
  answers depends on its classification of the characters around a word boundary and on its
  reading of the new name as a replacement template, which raises an error for some names
  that hold a backslash. The next three definitions give the answer for names and titles of
  ASCII characters and a new name without backslash; they are used in the examples.

  \<^verbatim>\<open>\b\<close>: a position is a word boundary when exactly one of the characters around it is a
  word character (a letter, a digit or the underscore); the start and the end of the string
  count as no word character.\<close>

definition is_word_char :: "char \<Rightarrow> bool" where
  "is_word_char c =
    (c \<in> set ''abcdefghijklmnopqrstuvwxyzABCDEFGHIJKLMNOPQRSTUVWXYZ0123456789_'')"

definition word_boundary :: "char \<Rightarrow> string \<Rightarrow> bool" where
  "word_boundary c rest =
    (is_word_char c \<noteq> (case rest of [] \<Rightarrow> False | d # _ \<Rightarrow> is_word_char d))"

text \<open>From left to right, every occurrence of a colon and the old name that ends at a word
  boundary is replaced by a colon and the new name; the search goes on behind the replaced
  text.\<close>

fun re_sub_name :: "username \<Rightarrow> username \<Rightarrow> title \<Rightarrow> title" where
  "re_sub_name old new [] = []"
| "re_sub_name old new (c # cs) =
    (if c = CHR '':'' \<and> take (length old) cs = old
        \<and> word_boundary (last (c # old)) (drop (length old) cs)
     then CHR '':'' # new @ re_sub_name old new (drop (length old) cs)
     else c # re_sub_name old new cs)"

definition re_sub_ascii :: "username \<Rightarrow> username \<Rightarrow> title \<Rightarrow> error + title" where
  "re_sub_ascii old new t = Inr (re_sub_name old new t)"

section \<open>Events, policy and the working state\<close>

text \<open>The entries of \<^verbatim>\<open>renames\<close> and \<^verbatim>\<open>group_changes\<close>, as \<^verbatim>\<open>main\<close> builds them
  (both lists sorted by timestamp). The option default of \<^verbatim>\<open>renames\<close> is one entry whose
  fields are all \<^verbatim>\<open>None\<close>: its \<^verbatim>\<open>olduser\<close> equals no user.\<close>

record event =
  timestamp :: nat

record rename = event +
  olduser :: "username option"
  newuser :: username

record group_change = event +
  user :: username
  added :: "groupname set"
  removed :: "groupname set"

text \<open>The validated configuration of one list: \<^verbatim>\<open>group\<close> is the set made of the
  configured group name, and a switch that is absent reads as \<^verbatim>\<open>None\<close>, that is false.\<close>

record page_config =
  group :: "groupname set"
  add :: bool
  remove :: bool
  required :: bool

text \<open>\<^verbatim>\<open>page_dict\<close> and the three counters. The dictionary keeps insertion order, so its
  user keys are an association list; the set under \<^verbatim>\<open>'>nonusers'\<close>, a key that equals no
  user, is kept apart as a list without repetitions.\<close>

record treat_state =
  nonusers :: "page list"
  page_dict :: "(username \<times> page) list"
  added_count :: nat
  removed_count :: nat
  renamed_count :: nat

definition init_state :: treat_state where
  "init_state =
    \<lparr>nonusers = [], page_dict = [], added_count = 0, removed_count = 0, renamed_count = 0\<rparr>"

section \<open>Processing one list\<close>

text \<open>The inner loop over \<^verbatim>\<open>renames\<close> for one target: the user, the page and the number
  of renames applied. A rename applies when its old user is the current user; then the
  current user and page are replaced, so a later rename of the new name applies as well. An
  error of the substitution ends the run.\<close>

fun handle_renames ::
  "(username \<Rightarrow> username \<Rightarrow> title \<Rightarrow> error + title) \<Rightarrow> rename list
    \<Rightarrow> username \<times> page \<times> nat \<Rightarrow> error + username \<times> page \<times> nat" where
  "handle_renames re_sub [] (u, p, n) = Inr (u, p, n)"
| "handle_renames re_sub (r # rs) (u, p, n) =
    (if olduser r \<noteq> Some u then handle_renames re_sub rs (u, p, n)
     else (case re_sub u (newuser r) p of
             Inl e \<Rightarrow> Inl e
           | Inr p' \<Rightarrow> handle_renames re_sub rs (newuser r, p', Suc n)))"

text \<open>The user a target of the user or user talk namespace belongs to. The base page is
  built from the title up to the first slash; when nothing is left of it behind the
  namespace, as for \<^verbatim>\<open>User:/foo\<close>, it is no title and \<^verbatim>\<open>base_page.isTalkPage()\<close> raises
  \<^verbatim>\<open>InvalidTitleError\<close>.\<close>

definition target_user :: "page \<Rightarrow> error + username" where
  "target_user p =
    (let base_page = base_title p
     in if title_without_ns base_page = [] then Inl InvalidTitleError
        else if isTalkPage base_page then Inr (User (toggleTalkPage base_page))
        else Inr (User base_page))"

text \<open>One round of the loop over the current targets. \<^verbatim>\<open>groups\<close> is \<^verbatim>\<open>user.groups()\<close>,
  the groups the site reports for a user now.\<close>

definition treat_target ::
  "(username \<Rightarrow> username \<Rightarrow> title \<Rightarrow> error + title) \<Rightarrow> (username \<Rightarrow> groupname set)
    \<Rightarrow> page_config \<Rightarrow> rename list \<Rightarrow> treat_state \<Rightarrow> title \<Rightarrow> error + treat_state" where
  "treat_target re_sub groups cfg renames st item =
    (if namespace_id item \<notin> {2, 3}
     then Inr (st\<lparr>nonusers := List.insert item (nonusers st)\<rparr>)
     else
       (case target_user item of
          Inl e \<Rightarrow> Inl e
        | Inr u0 \<Rightarrow>
            (case handle_renames re_sub renames (u0, item, 0) of
               Inl e \<Rightarrow> Inl e
             | Inr (u, p, n) \<Rightarrow>
                 let st' = st\<lparr>renamed_count := renamed_count st + n\<rparr>
                 in if required cfg \<and> group cfg \<inter> groups u = {}
                    then Inr (st'\<lparr>removed_count := Suc (removed_count st')\<rparr>)
                    else Inr (st'\<lparr>page_dict := AList.update u p (page_dict st')\<rparr>))))"

text \<open>The loop over the current targets: an exception in one round ends it.\<close>

fun process_items ::
  "(username \<Rightarrow> username \<Rightarrow> title \<Rightarrow> error + title) \<Rightarrow> (username \<Rightarrow> groupname set)
    \<Rightarrow> page_config \<Rightarrow> rename list \<Rightarrow> treat_state \<Rightarrow> title list \<Rightarrow> error + treat_state" where
  "process_items re_sub groups cfg renames st [] = Inr st"
| "process_items re_sub groups cfg renames st (item # items) =
    (case treat_target re_sub groups cfg renames st item of
       Inl e \<Rightarrow> Inl e
     | Inr st' \<Rightarrow> process_items re_sub groups cfg renames st' items)"

definition process_targets ::
  "(username \<Rightarrow> username \<Rightarrow> title \<Rightarrow> error + title) \<Rightarrow> (username \<Rightarrow> groupname set)
    \<Rightarrow> page_config \<Rightarrow> rename list \<Rightarrow> title list \<Rightarrow> error + treat_state" where
  "process_targets re_sub groups cfg renames items =
    process_items re_sub groups cfg renames init_state items"

text \<open>One round of the loop over \<^verbatim>\<open>group_changes\<close>.\<close>

definition handle_add ::
  "(username \<Rightarrow> groupname set) \<Rightarrow> page_config \<Rightarrow> treat_state \<Rightarrow> group_change \<Rightarrow> treat_state" where
  "handle_add groups cfg st change =
    (if add cfg \<and> group cfg \<inter> added change \<noteq> {} \<and> ''bot'' \<notin> groups (user change)
        \<and> user change \<notin> fst ` set (page_dict st)
     then st\<lparr>page_dict := AList.update (user change) (user_talk (user change)) (page_dict st),
             added_count := Suc (added_count st)\<rparr>
     else st)"

definition handle_remove :: "page_config \<Rightarrow> treat_state \<Rightarrow> group_change \<Rightarrow> treat_state" where
  "handle_remove cfg st change =
    (if remove cfg \<and> group cfg \<inter> removed change \<noteq> {}
     then (if user change \<in> fst ` set (page_dict st)
           then st\<lparr>page_dict := AList.delete (user change) (page_dict st),
                   removed_count := Suc (removed_count st)\<rparr>
           else st)
     else st)"

definition handle_change ::
  "(username \<Rightarrow> groupname set) \<Rightarrow> page_config \<Rightarrow> treat_state \<Rightarrow> group_change \<Rightarrow> treat_state" where
  "handle_change groups cfg st change = handle_remove cfg (handle_add groups cfg st change) change"

text \<open>The two loops of \<^verbatim>\<open>treat_page\<close>, one after the other.\<close>

definition reconcile ::
  "(username \<Rightarrow> username \<Rightarrow> title \<Rightarrow> error + title) \<Rightarrow> (username \<Rightarrow> groupname set)
    \<Rightarrow> page_config \<Rightarrow> title list \<Rightarrow> rename list \<Rightarrow> group_change list
    \<Rightarrow> error + treat_state" where
  "reconcile re_sub groups cfg items renames changes =
    (case process_targets re_sub groups cfg renames items of
       Inl e \<Rightarrow> Inl e
     | Inr st \<Rightarrow> Inr (foldl (handle_change groups cfg) st changes))"

text \<open>The pages the final list is made of: the set under \<^verbatim>\<open>'>nonusers'\<close> joined with the
  values of the dictionary.\<close>

definition final_pages :: "treat_state \<Rightarrow> page list" where
  "final_pages st = remdups (nonusers st @ map snd (page_dict st))"

definition final_entries :: "treat_state \<Rightarrow> page set" where
  "final_entries st = set (final_pages st)"

section \<open>Writing the list back\<close>

text \<open>Page objects compare by the key the wiki library gives them: the site (one here), the
  namespace and the title. \<^verbatim>\<open>sorted\<close> of the final set is the stable sort by that key of
  the pages without repetitions.\<close>

definition page_cmpkey :: "page \<Rightarrow> int \<times> title" where
  "page_cmpkey p = (namespace_id p, p)"

text \<open>\<^verbatim>\<open>'{}'.format(n)\<close> for a counter: its decimal digits.\<close>

fun str_nat :: "nat \<Rightarrow> string" where
  "str_nat n =
    (if n < 10 then [''0123456789'' ! n]
     else str_nat (n div 10) @ [''0123456789'' ! (n mod 10)])"

declare str_nat.simps [simp del]

text \<open>The parsed text of the list page, and the call \<^verbatim>\<open>put_current(text, summary)\<close>. The
  text is kept as the object that \<^verbatim>\<open>json.dumps\<close> serialises: the description passed
  through and the targets, one \<^verbatim>\<open>{'title': ...}\<close> each.\<close>

record 'd page_json =
  description :: 'd
  targets :: "title list"

record 'd put_current =
  new_text :: "'d page_json"
  summary :: string

definition summary_of :: "treat_state \<Rightarrow> string" where
  "summary_of st =
    ''Update MassMessage list: '' @ str_nat (added_count st) @ '' added, ''
      @ str_nat (removed_count st) @ '' removed''
      @ (if renamed_count st > 0 then '', '' @ str_nat (renamed_count st) @ '' renamed'' else [])"

definition build_json :: "'d page_json \<Rightarrow> treat_state \<Rightarrow> 'd page_json" where
  "build_json pj st =
    \<lparr>description = description pj, targets = sort_key page_cmpkey (final_pages st)\<rparr>"

text \<open>\<^verbatim>\<open>treat_page\<close> after the kill-switch check: the call of \<^verbatim>\<open>put_current\<close> it makes,
  \<^verbatim>\<open>None\<close> when it makes none, or the exception that ended it.\<close>

definition treat_page ::
  "(username \<Rightarrow> username \<Rightarrow> title \<Rightarrow> error + title) \<Rightarrow> (username \<Rightarrow> groupname set)
    \<Rightarrow> page_config \<Rightarrow> 'd page_json \<Rightarrow> rename list \<Rightarrow> group_change list
    \<Rightarrow> error + 'd put_current option" where
  "treat_page re_sub groups cfg pj renames changes =
    (case reconcile re_sub groups cfg (targets pj) renames changes of
       Inl e \<Rightarrow> Inl e
     | Inr st \<Rightarrow>
         if added_count st + removed_count st + renamed_count st > 0
         then Inr (Some \<lparr>new_text = build_json pj st, summary = summary_of st\<rparr>)
         else Inr None)"

section \<open>Reading and validating the configuration\<close>

text \<open>A value read by \<^verbatim>\<open>json.loads\<close>; \<^verbatim>\<open>JNull\<close> is Python's \<^verbatim>\<open>None\<close>. An object keeps
  its members in order, each key once.\<close>

datatype json =
  JNull
| JBool bool
| JNumber int
| JString string
| JArray "json list"
| JObject "(string \<times> json) list"

text \<open>The text of a page is a list of Unicode code points. What the page fetch layer
  answers for the configuration page:\<close>

type_synonym unicode = "nat list"

record page_state =
  exists :: bool
  isRedirectPage :: bool
  isEmpty :: bool
  get :: unicode

text \<open>\<^verbatim>\<open>str.strip()\<close>: white space off both ends. White space is what \<^verbatim>\<open>str.isspace\<close>
  says: the controls 9 to 13 and 28 to 31, the space, U+0085, U+00A0, U+1680, U+2000 to
  U+200A, U+2028, U+2029, U+202F, U+205F and U+3000.\<close>

definition is_space :: "nat \<Rightarrow> bool" where
  "is_space c =
    (c \<in> {9, 10, 11, 12, 13, 28, 29, 30, 31, 32, 133, 160, 5760, 8232, 8233, 8239, 8287, 12288}
     \<or> (8192 \<le> c \<and> c \<le> 8202))"

definition strip :: "unicode \<Rightarrow> unicode" where
  "strip s = rev (dropWhile is_space (rev (dropWhile is_space s)))"

text \<open>\<^verbatim>\<open>get_json_from_page\<close>. \<^verbatim>\<open>loads\<close> is \<^verbatim>\<open>json.loads\<close>, which answers \<^verbatim>\<open>None\<close> here
  where it raises \<^verbatim>\<open>ValueError\<close>; the function logs and raises the error again.\<close>

definition get_json_from_page :: "(unicode \<Rightarrow> json option) \<Rightarrow> page_state \<Rightarrow> error + json" where
  "get_json_from_page loads page =
    (if \<not> exists page then Inr JNull
     else if isRedirectPage page then Inr JNull
     else if isEmpty page then Inr JNull
     else (case loads (strip (get page)) of
             None \<Rightarrow> Inl ValueError
           | Some j \<Rightarrow> Inr j))"

text \<open>The values of one list's configuration while it is validated: what was read, and the
  page object stored under \<^verbatim>\<open>'page'\<close> before the keys are looked at.\<close>

datatype config_value = Json json | PageObj title

definition required_keys :: "string list" where
  "required_keys = [''enabled'', ''group'', ''page'']"

text \<open>The loop over the items of one \<^verbatim>\<open>page_config\<close>: \<^verbatim>\<open>Inr None\<close> is
  \<^verbatim>\<open>return False\<close>, and \<^verbatim>\<open>Inr (Some has_keys)\<close> the end of the loop.
  \<^verbatim>\<open>content_model\<close> is the content model the site reports for a page, or the exception
  the request for it raises.\<close>

fun check_items ::
  "(title \<Rightarrow> error + string) \<Rightarrow> (string \<times> config_value) list \<Rightarrow> string list
    \<Rightarrow> error + string list option" where
  "check_items content_model [] has_keys = Inr (Some has_keys)"
| "check_items content_model ((key, v) # items) has_keys =
    (let has_keys' = (if key \<in> set required_keys then has_keys @ [key] else has_keys)
     in if key \<in> {''add'', ''enabled'', ''remove'', ''required''}
        then (case v of
                Json (JBool b) \<Rightarrow> check_items content_model items has_keys'
              | _ \<Rightarrow> Inr None)
        else if key = ''group''
        then (case v of
                Json (JString s) \<Rightarrow> check_items content_model items has_keys'
              | _ \<Rightarrow> Inr None)
        else if key = ''page''
        then (case v of
                PageObj p \<Rightarrow>
                  (case content_model p of
                     Inl e \<Rightarrow> Inl e
                   | Inr m \<Rightarrow>
                       if m \<noteq> ''MassMessageListContent'' then Inr None
                       else check_items content_model items has_keys')
              | Json j \<Rightarrow> Inl AttributeError)
        else Inr None)"

text \<open>One round of the loop over the lists. Storing the page under \<^verbatim>\<open>'page'\<close> raises
  \<^verbatim>\<open>TypeError\<close> when the list's configuration is no object.\<close>

definition validate_page_config ::
  "(title \<Rightarrow> error + string) \<Rightarrow> title \<Rightarrow> json \<Rightarrow> error + bool" where
  "validate_page_config content_model t pc =
    (case pc of
       JObject kvs \<Rightarrow>
         (case check_items content_model
                 (AList.update ''page'' (PageObj t) (map (\<lambda>(k, v). (k, Json v)) kvs)) [] of
            Inl e \<Rightarrow> Inl e
          | Inr None \<Rightarrow> Inr False
          | Inr (Some has_keys) \<Rightarrow> Inr (sort has_keys = sort required_keys))
     | _ \<Rightarrow> Inl TypeError)"

fun validate_entries ::
  "(title \<Rightarrow> error + string) \<Rightarrow> (title \<times> json) list \<Rightarrow> error + bool" where
  "validate_entries content_model [] = Inr True"
| "validate_entries content_model ((t, pc) # rest) =
    (case validate_page_config content_model t pc of
       Inl e \<Rightarrow> Inl e
     | Inr ok \<Rightarrow> if ok then validate_entries content_model rest else Inr False)"

definition validate_config :: "(title \<Rightarrow> error + string) \<Rightarrow> json \<Rightarrow> error + bool" where
  "validate_config content_model config =
    (case config of
       JObject entries \<Rightarrow> validate_entries content_model entries
     | _ \<Rightarrow> Inr False)"

section \<open>The reconciler in the words of the specification\<close>






section \<open>Properties\<close>

subsection \<open>Titles of user pages\<close>

lemmas eval_defs =
  reconcile_def process_targets_def treat_target_def handle_change_def handle_add_def
  handle_remove_def init_state_def target_user_def base_title_def User_def user_talk_def
  user_title_def toggleTalkPage_def isTalkPage_def namespace_id_def namespaces_def ns_prefix_def
  title_without_ns_def final_entries_def final_pages_def treat_page_def build_json_def
  summary_of_def page_cmpkey_def word_boundary_def is_word_char_def re_sub_ascii_def




subsection \<open>The loop over the current targets\<close>

lemma handle_renames_Nil: "handle_renames re_sub [] x = Inr x"
  by (cases x) simp

lemma treat_target_nonuser:
  "namespace_id item \<notin> {2, 3} \<Longrightarrow>
     treat_target re_sub groups cfg renames st item =
       Inr (st\<lparr>nonusers := List.insert item (nonusers st)\<rparr>)"
  by (simp add: treat_target_def)

lemma treat_target_user:
  assumes "namespace_id item \<in> {2, 3}" and "target_user item = Inr u0"
    and "handle_renames re_sub renames (u0, item, 0) = Inr (u, p, n)"
  shows "treat_target re_sub groups cfg renames st item =
     (if required cfg \<and> group cfg \<inter> groups u = {}
      then Inr (st\<lparr>renamed_count := renamed_count st + n,
                   removed_count := Suc (removed_count st)\<rparr>)
      else Inr (st\<lparr>renamed_count := renamed_count st + n,
                   page_dict := AList.update u p (page_dict st)\<rparr>))"
  using assms by (simp add: treat_target_def Let_def)

lemma treat_target_InrD:
  assumes "treat_target re_sub groups cfg renames st item = Inr st'"
  shows "(namespace_id item \<notin> {2, 3}
            \<and> st' = st\<lparr>nonusers := List.insert item (nonusers st)\<rparr>)
     \<or> (namespace_id item \<in> {2, 3}
          \<and> (\<exists>u0 u p n. target_user item = Inr u0
                \<and> handle_renames re_sub renames (u0, item, 0) = Inr (u, p, n)
                \<and> (if required cfg \<and> group cfg \<inter> groups u = {}
                    then st' = st\<lparr>renamed_count := renamed_count st + n,
                                  removed_count := Suc (removed_count st)\<rparr>
                    else st' = st\<lparr>renamed_count := renamed_count st + n,
                                  page_dict := AList.update u p (page_dict st)\<rparr>)))"
proof (cases "namespace_id item \<in> {2, 3}")
  case False
  with assms show ?thesis by (simp add: treat_target_def)
next
  case True
  from assms True obtain u0 where u0: "target_user item = Inr u0"
    by (cases "target_user item") (auto simp add: treat_target_def)
  from assms True u0 obtain x where x: "handle_renames re_sub renames (u0, item, 0) = Inr x"
    by (cases "handle_renames re_sub renames (u0, item, 0)") (auto simp add: treat_target_def)
  obtain u p n where upn: "x = (u, p, n)" by (cases x) auto
  from assms show ?thesis
    unfolding treat_target_user [OF True u0 x [unfolded upn]]
    using True u0 x upn by (auto split: if_splits)
qed


lemma process_items_append:
  "process_items re_sub groups cfg renames st (xs @ ys) =
     (case process_items re_sub groups cfg renames st xs of
        Inl e \<Rightarrow> Inl e
      | Inr st' \<Rightarrow> process_items re_sub groups cfg renames st' ys)"
  by (induction xs arbitrary: st) (simp_all split: sum.splits)


lemma process_items_nonusers:
  "process_items re_sub groups cfg renames st items = Inr st' \<Longrightarrow>
     set (nonusers st') = set (nonusers st) \<union> {p \<in> set items. namespace_id p \<notin> {2, 3}}"
proof (induction items arbitrary: st)
  case Nil
  then show ?case by simp
next
  case (Cons x xs)
  from Cons.prems obtain s1 where s1: "treat_target re_sub groups cfg renames st x = Inr s1"
    and rest: "process_items re_sub groups cfg renames s1 xs = Inr st'"
    by (auto split: sum.splits)
  have "set (nonusers s1) = set (nonusers st) \<union> {p \<in> {x}. namespace_id p \<notin> {2, 3}}"
    using treat_target_InrD [OF s1] by (auto split: if_splits)
  with Cons.IH [OF rest] show ?case by auto
qed

lemma set_update_subset: "set (AList.update k v al) \<subseteq> insert (k, v) (set al)"
  by (induction al) auto

lemma process_items_page_dict:
  "process_items re_sub groups cfg [] st items = Inr st' \<Longrightarrow>
     set (page_dict st') \<subseteq>
       set (page_dict st) \<union> {(u, p). p \<in> set items \<and> namespace_id p \<in> {2, 3}
         \<and> target_user p = Inr u \<and> \<not> (required cfg \<and> group cfg \<inter> groups u = {})}"
proof (induction items arbitrary: st)
  case Nil
  then show ?case by simp
next
  case (Cons x xs)
  from Cons.prems obtain s1 where s1: "treat_target re_sub groups cfg [] st x = Inr s1"
    and rest: "process_items re_sub groups cfg [] s1 xs = Inr st'"
    by (auto split: sum.splits)
  have "set (page_dict s1) \<subseteq>
       set (page_dict st) \<union> {(u, p). p = x \<and> namespace_id p \<in> {2, 3}
         \<and> target_user p = Inr u \<and> \<not> (required cfg \<and> group cfg \<inter> groups u = {})}"
    using treat_target_InrD [OF s1] set_update_subset
    by (fastforce simp add: handle_renames_Nil split: if_splits)
  with Cons.IH [OF rest] show ?case
    by (simp add: subset_iff) blast
qed



lemma inj_page_cmpkey: "inj page_cmpkey"
  by (simp add: inj_on_def page_cmpkey_def)

subsection \<open>The concrete scenario\<close>

text \<open>Claim C2. The current list holds the talk page of Alice; the policy has the group filter
  \<open>{sysop}\<close> with \<open>add\<close> and \<open>remove\<close> set and \<open>required\<close> unset; there is no rename; Bob gains
  \<open>sysop\<close> at time 1 and Alice loses it at time 2; Bob is in no bot group. Then the run ends
  without exception, the final entries are the talk page of Bob, and one addition, one removal
  and no rename are counted.\<close>

theorem C2_concrete_scenario:
  assumes "''bot'' \<notin> groups ''Bob''"
  shows "case reconcile re_sub groups
                \<lparr>group = {''sysop''}, add = True, remove = True, required = False\<rparr>
                [user_talk ''Alice''] []
                [\<lparr>timestamp = 1, user = ''Bob'', added = {''sysop''}, removed = {}\<rparr>,
                 \<lparr>timestamp = 2, user = ''Alice'', added = {}, removed = {''sysop''}\<rparr>] of
           Inl e \<Rightarrow> False
         | Inr st \<Rightarrow> final_entries st = {user_talk ''Bob''} \<and> added_count st = 1
                     \<and> removed_count st = 1 \<and> renamed_count st = 0"
  using assms by (simp add: eval_defs)

theorem C2_concrete_scenario_witness:
  "case reconcile re_sub_ascii (\<lambda>u. if u = ''Bob'' then {''sysop''} else {})
          \<lparr>group = {''sysop''}, add = True, remove = True, required = False\<rparr>
          [''User talk:Alice''] []
          [\<lparr>timestamp = 1, user = ''Bob'', added = {''sysop''}, removed = {}\<rparr>,
           \<lparr>timestamp = 2, user = ''Alice'', added = {}, removed = {''sysop''}\<rparr>] of
     Inl e \<Rightarrow> False
   | Inr st \<Rightarrow> final_pages st = [''User talk:Bob''] \<and> added_count st = 1
               \<and> removed_count st = 1 \<and> renamed_count st = 0"
  using C2_concrete_scenario [of "\<lambda>u. if u = ''Bob'' then {''sysop''} else {}" re_sub_ascii]
  by (simp add: eval_defs)

subsection \<open>Eviction of users outside the required group\<close>



subsection \<open>Writing only when something changed\<close>

text \<open>Claim C8. \<^verbatim>\<open>treat_page\<close> calls \<^verbatim>\<open>put_current\<close> exactly when one of the three counters
  is positive; when all three are zero nothing is written, and a write carries the rebuilt
  list and the summary of the counters. A run that an exception ends writes nothing.\<close>

theorem C8_no_write_without_change:
  "treat_page re_sub groups cfg pj renames changes =
     (case reconcile re_sub groups cfg (targets pj) renames changes of
        Inl e \<Rightarrow> Inl e
      | Inr st \<Rightarrow>
          if added_count st = 0 \<and> removed_count st = 0 \<and> renamed_count st = 0 then Inr None
          else Inr (Some \<lparr>new_text = build_json pj st, summary = summary_of st\<rparr>))"
  by (simp add: treat_page_def split: sum.splits)

theorem C8_no_write_without_change_witness:
  "treat_page re_sub_ascii (\<lambda>u. {})
      \<lparr>group = {''sysop''}, add = True, remove = True, required = False\<rparr>
      \<lparr>description = ''d'', targets = [''Zebra'', ''User talk:Alice'']\<rparr> [] [] = Inr None
   \<and> treat_page re_sub_ascii (\<lambda>u. {})
      \<lparr>group = {''sysop''}, add = True, remove = True, required = False\<rparr>
      \<lparr>description = ''d'', targets = [''Zebra'', ''User talk:Alice'']\<rparr> []
      [\<lparr>timestamp = 1, user = ''Alice'', added = {}, removed = {''sysop''}\<rparr>] =
     Inr (Some \<lparr>new_text = \<lparr>description = ''d'', targets = [''Zebra'']\<rparr>,
                summary = ''Update MassMessage list: 0 added, 1 removed''\<rparr>)"
  using C8_no_write_without_change [of re_sub_ascii "\<lambda>u. {}"
      "\<lparr>group = {''sysop''}, add = True, remove = True, required = False\<rparr>"
      "\<lparr>description = ''d'', targets = [''Zebra'', ''User talk:Alice'']\<rparr>" "[]" "[]"]
    C8_no_write_without_change [of re_sub_ascii "\<lambda>u. {}"
      "\<lparr>group = {''sysop''}, add = True, remove = True, required = False\<rparr>"
      "\<lparr>description = ''d'', targets = [''Zebra'', ''User talk:Alice'']\<rparr>" "[]"
      "[\<lparr>timestamp = 1, user = ''Alice'', added = {}, removed = {''sysop''}\<rparr>]"]
  by (simp add: eval_defs str_nat.simps)

subsection \<open>The order of the written list\<close>

text \<open>Claim C9. The written targets hold the pages under \<^verbatim>\<open>'>nonusers'\<close> and the pages
  stored for the users, each page once. They are in strictly ascending order of the page
  comparison key, which is the namespace number first and the title second; this is not the
  lexicographic order of the titles: the main namespace page \<open>Zebra\<close> is written before
  \<open>User talk:Alice\<close>.\<close>

theorem C9_targets_sorted_by_namespace_and_title:
  assumes "treat_page re_sub groups cfg pj renames changes = Inr (Some w)"
  shows "sorted_wrt (\<lambda>p q. page_cmpkey p < page_cmpkey q) (targets (new_text w))
     \<and> distinct (targets (new_text w))
     \<and> (\<exists>st. reconcile re_sub groups cfg (targets pj) renames changes = Inr st
           \<and> set (targets (new_text w)) = set (nonusers st) \<union> snd ` set (page_dict st))"
proof -
  from assms obtain st where st: "reconcile re_sub groups cfg (targets pj) renames changes = Inr st"
    and w: "targets (new_text w) = sort_key page_cmpkey (final_pages st)"
    by (auto simp add: treat_page_def build_json_def split: sum.splits if_splits)
  have d: "distinct (final_pages st)"
    by (simp add: final_pages_def)
  have dm: "distinct (map page_cmpkey (sort_key page_cmpkey (final_pages st)))"
    using d inj_page_cmpkey by (simp add: distinct_map inj_on_def)
  have "sorted (map page_cmpkey (sort_key page_cmpkey (final_pages st)))"
    by simp
  with dm have "sorted_wrt (<) (map page_cmpkey (sort_key page_cmpkey (final_pages st)))"
    by (simp add: strict_sorted_iff)
  then have "sorted_wrt (\<lambda>p q. page_cmpkey p < page_cmpkey q)
      (sort_key page_cmpkey (final_pages st))"
    by (simp add: sorted_wrt_map)
  moreover have "set (sort_key page_cmpkey (final_pages st)) =
      set (nonusers st) \<union> snd ` set (page_dict st)"
    by (simp add: final_pages_def)
  ultimately show ?thesis
    using w d st by simp
qed

theorem C9_targets_sorted_by_namespace_and_title_witness:
  "sorted_wrt (\<lambda>p q. page_cmpkey p < page_cmpkey q)
      [''Zebra'', ''User talk:Alice'', ''User talk:Bob'', ''Portal:Arts'']
   \<and> distinct [''Zebra'', ''User talk:Alice'', ''User talk:Bob'', ''Portal:Arts'']"
proof -
  have "treat_page re_sub_ascii (\<lambda>u. {})
      \<lparr>group = {''sysop''}, add = True, remove = True, required = False\<rparr>
      \<lparr>description = ''d'', targets = [''Portal:Arts'', ''Zebra'', ''User talk:Alice'']\<rparr> []
      [\<lparr>timestamp = 1, user = ''Bob'', added = {''sysop''}, removed = {}\<rparr>] =
     Inr (Some \<lparr>new_text = \<lparr>description = ''d'',
             targets = [''Zebra'', ''User talk:Alice'', ''User talk:Bob'', ''Portal:Arts'']\<rparr>,
           summary = ''Update MassMessage list: 1 added, 0 removed''\<rparr>)"
    by (simp add: eval_defs str_nat.simps)
  from C9_targets_sorted_by_namespace_and_title [OF this] show ?thesis by simp
qed

theorem C9_not_sorted_by_title:
  "treat_page re_sub_ascii (\<lambda>u. {})
      \<lparr>group = {''sysop''}, add = True, remove = True, required = False\<rparr>
      \<lparr>description = ''d'', targets = [''Zebra'', ''User talk:Alice'']\<rparr> []
      [\<lparr>timestamp = 1, user = ''Bob'', added = {''sysop''}, removed = {}\<rparr>] =
     Inr (Some \<lparr>new_text = \<lparr>description = ''d'',
             targets = [''Zebra'', ''User talk:Alice'', ''User talk:Bob'']\<rparr>,
           summary = ''Update MassMessage list: 1 added, 0 removed''\<rparr>)
   \<and> \<not> sorted [''Zebra'', ''User talk:Alice'', ''User talk:Bob'']"
  by (simp add: eval_defs str_nat.simps)

subsection \<open>Reading the configuration page\<close>

text \<open>Claim C10. \<^verbatim>\<open>get_json_from_page\<close> answers \<^verbatim>\<open>None\<close> for a page that does not exist, is
  a redirect or is empty; for any other page it answers what \<^verbatim>\<open>json.loads\<close> makes of the
  stripped text, and raises the \<^verbatim>\<open>ValueError\<close> of \<^verbatim>\<open>json.loads\<close> when that text is no
  valid JSON.\<close>

theorem C10_get_json_from_page:
  "(\<not> exists page \<or> isRedirectPage page \<or> isEmpty page
      \<longrightarrow> get_json_from_page loads page = Inr JNull)
   \<and> (exists page \<and> \<not> isRedirectPage page \<and> \<not> isEmpty page
      \<longrightarrow> get_json_from_page loads page =
          (case loads (strip (get page)) of None \<Rightarrow> Inl ValueError | Some j \<Rightarrow> Inr j))"
  by (simp add: get_json_from_page_def)

theorem C10_get_json_from_page_witness:
  "get_json_from_page (\<lambda>s. if s = [116, 114, 117, 101] then Some (JBool True) else None)
      \<lparr>exists = False, isRedirectPage = False, isEmpty = False, get = []\<rparr> = Inr JNull
   \<and> get_json_from_page (\<lambda>s. if s = [116, 114, 117, 101] then Some (JBool True) else None)
      \<lparr>exists = True, isRedirectPage = False, isEmpty = False,
       get = [160, 32, 116, 114, 117, 101, 10]\<rparr>
       = Inr (JBool True)
   \<and> get_json_from_page (\<lambda>s. if s = [116, 114, 117, 101] then Some (JBool True) else None)
      \<lparr>exists = True, isRedirectPage = False, isEmpty = False, get = [123, 32]\<rparr>
       = Inl ValueError"
  using C10_get_json_from_page
      [of "\<lparr>exists = False, isRedirectPage = False, isEmpty = False, get = []\<rparr>"
        "\<lambda>s. if s = [116, 114, 117, 101] then Some (JBool True) else None"]
    C10_get_json_from_page
      [of "\<lparr>exists = True, isRedirectPage = False, isEmpty = False,
            get = [160, 32, 116, 114, 117, 101, 10]\<rparr>"
        "\<lambda>s. if s = [116, 114, 117, 101] then Some (JBool True) else None"]
    C10_get_json_from_page
      [of "\<lparr>exists = True, isRedirectPage = False, isEmpty = False, get = [123, 32]\<rparr>"
        "\<lambda>s. if s = [116, 114, 117, 101] then Some (JBool True) else None"]
  by (simp add: strip_def is_space_def)

subsection \<open>The loop over the group changes\<close>







subsection \<open>A rename followed by a removal\<close>





subsection \<open>Running again without events\<close>

lemma process_items_pass:
  "\<forall>q\<in>set items. namespace_id q \<in> {2, 3} \<longrightarrow>
      (\<exists>u. target_user q = Inr u \<and> \<not> (required cfg \<and> group cfg \<inter> groups u = {})) \<Longrightarrow>
   \<exists>st'. process_items re_sub groups cfg [] st items = Inr st'
     \<and> added_count st' = added_count st \<and> removed_count st' = removed_count st
     \<and> renamed_count st' = renamed_count st"
proof (induction items arbitrary: st)
  case Nil
  then show ?case by simp
next
  case (Cons x xs)
  have xs: "\<forall>q\<in>set xs. namespace_id q \<in> {2, 3} \<longrightarrow>
      (\<exists>u. target_user q = Inr u \<and> \<not> (required cfg \<and> group cfg \<inter> groups u = {}))"
    using Cons.prems by simp
  have "\<exists>s1. treat_target re_sub groups cfg [] st x = Inr s1
      \<and> added_count s1 = added_count st \<and> removed_count s1 = removed_count st
      \<and> renamed_count s1 = renamed_count st"
  proof (cases "namespace_id x \<in> {2, 3}")
    case False
    then show ?thesis by (simp add: treat_target_nonuser)
  next
    case True
    with Cons.prems obtain u where u: "target_user x = Inr u"
      and pass: "\<not> (required cfg \<and> group cfg \<inter> groups u = {})" by auto
    have "handle_renames re_sub [] (u, x, 0) = Inr (u, x, 0)" by simp
    from treat_target_user [where groups = groups and cfg = cfg and st = st, OF True u this]
      pass show ?thesis by auto
  qed
  then obtain s1 where s1: "treat_target re_sub groups cfg [] st x = Inr s1"
    and c1: "added_count s1 = added_count st" "removed_count s1 = removed_count st"
      "renamed_count s1 = renamed_count st" by auto
  from Cons.IH [OF xs, of s1] c1 show ?case
    by (simp add: s1)
qed

lemma process_items_keeps:
  "\<lbrakk>process_items re_sub groups cfg [] st items = Inr st';
    \<forall>q\<in>set items. namespace_id q \<in> {2, 3} \<longrightarrow>
      (\<exists>u. target_user q = Inr u \<and> \<not> (required cfg \<and> group cfg \<inter> groups u = {}));
    inj_on target_user {q \<in> set items. namespace_id q \<in> {2, 3}};
    p \<in> set items; namespace_id p \<in> {2, 3}; target_user p = Inr u\<rbrakk>
   \<Longrightarrow> map_of (page_dict st') u = Some p"
proof (induction items arbitrary: st' rule: rev_induct)
  case Nil
  then show ?case by simp
next
  case (snoc x xs)
  from snoc.prems(1) obtain s where s: "process_items re_sub groups cfg [] st xs = Inr s"
    and last: "treat_target re_sub groups cfg [] s x = Inr st'"
    by (auto simp add: process_items_append split: sum.splits)
  have inj: "inj_on target_user {q \<in> set xs. namespace_id q \<in> {2, 3}}"
    using snoc.prems(3) by (rule inj_on_subset) auto
  have ok: "\<forall>q\<in>set xs. namespace_id q \<in> {2, 3} \<longrightarrow>
      (\<exists>u. target_user q = Inr u \<and> \<not> (required cfg \<and> group cfg \<inter> groups u = {}))"
    using snoc.prems(2) by simp
  show ?case
  proof (cases "namespace_id x \<in> {2, 3}")
    case False
    then have "p \<noteq> x" using snoc.prems(5) by auto
    then have px: "p \<in> set xs" using snoc.prems(4) by simp
    from last False have "page_dict st' = page_dict s"
      by (auto simp add: treat_target_nonuser)
    with snoc.IH [OF s ok inj px snoc.prems(5,6)] show ?thesis by simp
  next
    case True
    with snoc.prems(2) obtain ux where ux: "target_user x = Inr ux"
      and pass: "\<not> (required cfg \<and> group cfg \<inter> groups ux = {})" by auto
    have "handle_renames re_sub [] (ux, x, 0) = Inr (ux, x, 0)" by simp
    from treat_target_user [where groups = groups and cfg = cfg and st = s, OF True ux this]
      pass last
    have step: "page_dict st' = AList.update ux x (page_dict s)"
      by auto
    show ?thesis
    proof (cases "p = x")
      case True
      with ux snoc.prems(6) show ?thesis by (simp add: step update_conv')
    next
      case False
      then have px: "p \<in> set xs" using snoc.prems(4) by simp
      have "target_user p \<noteq> target_user x"
        using snoc.prems(3,4,5) True False by (auto simp add: inj_on_def)
      then have "u \<noteq> ux" using ux snoc.prems(6) by auto
      with snoc.IH [OF s ok inj px snoc.prems(5,6)] show ?thesis
        by (simp add: step update_conv')
    qed
  qed
qed

text \<open>Claim C5. A list is reconciled against no rename and no group change. When every entry
  of the user or user talk namespace belongs to a user (its base page is a title), \<open>required\<close>
  is unset or each of these users holds a configured group, and no two such entries belong to
  the same user, the run ends with the entries of the list as final entries and the three
  counters at zero, and nothing is written. Without the condition on \<open>required\<close> the entries
  are not kept: with \<open>required\<close> set, the talk page of Bob, added by a first run for a group
  change, is removed by the second run when Bob holds none of the configured groups.\<close>

theorem C5_rerun_without_events:
  assumes "\<forall>q\<in>set items. namespace_id q \<in> {2, 3} \<longrightarrow>
      (\<exists>u. target_user q = Inr u \<and> \<not> (required cfg \<and> group cfg \<inter> groups u = {}))"
    and "inj_on target_user {q \<in> set items. namespace_id q \<in> {2, 3}}"
  shows "(\<exists>st. reconcile re_sub groups cfg items [] [] = Inr st
            \<and> final_entries st = set items
            \<and> added_count st = 0 \<and> removed_count st = 0 \<and> renamed_count st = 0)
     \<and> treat_page re_sub groups cfg \<lparr>description = d, targets = items\<rparr> [] [] = Inr None"
proof -
  from process_items_pass [OF assms(1), of re_sub init_state]
  obtain st where s: "process_items re_sub groups cfg [] init_state items = Inr st"
    and ad: "added_count st = 0" and rm: "removed_count st = 0" and rn: "renamed_count st = 0"
    by (auto simp add: init_state_def)
  have st: "reconcile re_sub groups cfg items [] [] = Inr st"
    by (simp add: reconcile_def process_targets_def s)
  have nu: "set (nonusers st) = {p \<in> set items. namespace_id p \<notin> {2, 3}}"
    using process_items_nonusers [OF s] by (simp add: init_state_def)
  have sub: "snd ` set (page_dict st) \<subseteq> {p \<in> set items. namespace_id p \<in> {2, 3}}"
    using process_items_page_dict [OF s]
    by (fastforce simp add: init_state_def)
  have sup: "{p \<in> set items. namespace_id p \<in> {2, 3}} \<subseteq> snd ` set (page_dict st)"
  proof
    fix p assume "p \<in> {p \<in> set items. namespace_id p \<in> {2, 3}}"
    then have p: "p \<in> set items" "namespace_id p \<in> {2, 3}" by auto
    with assms(1) obtain u where u: "target_user p = Inr u" by auto
    from process_items_keeps [OF s assms p u]
    have "(u, p) \<in> set (page_dict st)"
      by (simp add: map_of_SomeD)
    then show "p \<in> snd ` set (page_dict st)" by force
  qed
  from sub sup have "snd ` set (page_dict st) = {p \<in> set items. namespace_id p \<in> {2, 3}}"
    by (rule subset_antisym)
  with nu have fe: "final_entries st = set items"
    by (auto simp add: final_entries_def final_pages_def)
  have "treat_page re_sub groups cfg \<lparr>description = d, targets = items\<rparr> [] [] = Inr None"
    using ad rm rn by (simp add: treat_page_def st)
  with st fe ad rm rn show ?thesis by simp
qed

theorem C5_rerun_without_events_witness:
  "(\<exists>st. reconcile re_sub_ascii (\<lambda>u. if u = ''Bob'' then {''sysop''} else {})
       \<lparr>group = {''sysop''}, add = True, remove = True, required = True\<rparr>
       [''Zebra'', ''User talk:Bob''] [] [] = Inr st
     \<and> final_entries st = {''Zebra'', ''User talk:Bob''}
     \<and> added_count st = 0 \<and> removed_count st = 0 \<and> renamed_count st = 0)
   \<and> treat_page re_sub_ascii (\<lambda>u. if u = ''Bob'' then {''sysop''} else {})
       \<lparr>group = {''sysop''}, add = True, remove = True, required = True\<rparr>
       \<lparr>description = ''d'', targets = [''Zebra'', ''User talk:Bob'']\<rparr> [] [] = Inr None"
proof -
  let ?cfg = "\<lparr>group = {''sysop''}, add = True, remove = True, required = True\<rparr>"
  let ?groups = "\<lambda>u. if u = ''Bob'' then {''sysop''} else ({} :: string set)"
  have z: "namespace_id ''Zebra'' = 0" and b: "namespace_id ''User talk:Bob'' = 3"
    by (simp_all add: namespace_id_def namespaces_def)
  have t: "target_user ''User talk:Bob'' = Inr ''Bob''"
    by (simp add: eval_defs)
  have 1: "\<forall>q\<in>set [''Zebra'', ''User talk:Bob'']. namespace_id q \<in> {2, 3} \<longrightarrow>
      (\<exists>u. target_user q = Inr u \<and> \<not> (required ?cfg \<and> group ?cfg \<inter> ?groups u = {}))"
    by (simp add: z b t)
  have 2: "inj_on target_user {q \<in> set [''Zebra'', ''User talk:Bob'']. namespace_id q \<in> {2, 3}}"
    by (auto simp add: inj_on_def z b)
  from C5_rerun_without_events [where groups = "?groups" and cfg = "?cfg"
      and items = "[''Zebra'', ''User talk:Bob'']" and d = "''d''" and re_sub = re_sub_ascii,
      OF 1 2]
  show ?thesis by simp
qed

theorem C5_required_evicts_on_rerun:
  "reconcile re_sub_ascii (\<lambda>u. {})
       \<lparr>group = {''sysop''}, add = True, remove = True, required = True\<rparr> [] []
       [\<lparr>timestamp = 1, user = ''Bob'', added = {''sysop''}, removed = {}\<rparr>]
     = Inr \<lparr>nonusers = [], page_dict = [(''Bob'', ''User talk:Bob'')], added_count = 1,
            removed_count = 0, renamed_count = 0\<rparr>
   \<and> reconcile re_sub_ascii (\<lambda>u. {})
       \<lparr>group = {''sysop''}, add = True, remove = True, required = True\<rparr>
       [''User talk:Bob''] [] []
     = Inr \<lparr>nonusers = [], page_dict = [], added_count = 0, removed_count = 1,
            renamed_count = 0\<rparr>"
  by (simp add: eval_defs)

subsection \<open>The order of the two loops\<close>








subsection \<open>Validating the configuration\<close>

lemma set_update_distinct:
  "distinct (map fst al) \<Longrightarrow>
     set (AList.update k v al) = insert (k, v) {x \<in> set al. fst x \<noteq> k}"
  by (induction al) (auto, force)

lemma sort_eq_iff_set_eq:
  fixes xs :: "'a::linorder list"
  assumes "distinct xs" and "distinct ys"
  shows "(sort xs = sort ys) = (set xs = set ys)"
proof
  assume "sort xs = sort ys"
  then have "set (sort xs) = set (sort ys)" by simp
  then show "set xs = set ys" by simp
next
  assume "set xs = set ys"
  with assms show "sort xs = sort ys"
    by (intro sorted_distinct_set_unique) simp_all
qed

lemma check_items_result:
  assumes "content_model t = Inr m"
  shows "\<forall>(k, v)\<in>set items. k = ''page'' \<longrightarrow> v = PageObj t \<Longrightarrow>
     check_items content_model items has_keys =
       (if \<forall>(k, v)\<in>set items.
             (k \<in> {''add'', ''enabled'', ''remove'', ''required''} \<and> (\<exists>b. v = Json (JBool b)))
             \<or> (k = ''group'' \<and> (\<exists>s. v = Json (JString s)))
             \<or> (k = ''page'' \<and> m = ''MassMessageListContent'')
        then Inr (Some (has_keys @ filter (\<lambda>k. k \<in> set required_keys) (map fst items)))
        else Inr None)"
proof (induction items arbitrary: has_keys)
  case Nil
  then show ?case by simp
next
  case (Cons a items)
  obtain k v where a: "a = (k, v)" by (cases a) auto
  have rest: "\<forall>(k, v)\<in>set items. k = ''page'' \<longrightarrow> v = PageObj t"
    using Cons.prems by simp
  have page: "k = ''page'' \<longrightarrow> v = PageObj t"
    using Cons.prems a by simp
  consider (switch) "k \<in> {''add'', ''enabled'', ''remove'', ''required''}"
    | (grp) "k = ''group''" | (pg) "k = ''page''"
    | (other) "k \<notin> {''add'', ''enabled'', ''remove'', ''required'', ''group'', ''page''}"
    by auto
  then show ?case
  proof cases
    case switch
    then show ?thesis
      unfolding a
      by (cases v rule: config_value.exhaust [case_names Json PageObj])
        (auto simp add: Cons.IH [OF rest] required_keys_def split: json.splits)
  next
    case grp
    then show ?thesis
      unfolding a
      by (cases v rule: config_value.exhaust [case_names Json PageObj])
        (auto simp add: Cons.IH [OF rest] required_keys_def split: json.splits)
  next
    case pg
    with page have "v = PageObj t" by simp
    with pg show ?thesis
      unfolding a
      by (auto simp add: Cons.IH [OF rest] required_keys_def assms)
  next
    case other
    then show ?thesis
      unfolding a by auto
  qed
qed

lemma required_keys_present:
  assumes "e \<noteq> p" and "g \<noteq> p"
  shows "({k \<in> insert p S. k \<in> {e, g, p}} = {e, g, p}) = (e \<in> S \<and> g \<in> S)"
  using assms by auto

lemma validate_page_config_accepts:
  assumes "distinct (map fst kvs)" and "content_model t = Inr m"
  shows "validate_page_config content_model t (JObject kvs) =
     Inr ((\<forall>(k, v)\<in>set kvs.
             k = ''page''
             \<or> (k \<in> {''add'', ''enabled'', ''remove'', ''required''} \<and> (\<exists>b. v = JBool b))
             \<or> (k = ''group'' \<and> (\<exists>s. v = JString s)))
          \<and> m = ''MassMessageListContent''
          \<and> ''enabled'' \<in> fst ` set kvs \<and> ''group'' \<in> fst ` set kvs)"
proof -
  let ?al = "map (\<lambda>(k, v). (k, Json v)) kvs"
  let ?items = "AList.update ''page'' (PageObj t) ?al"
  let ?hk = "filter (\<lambda>k. k \<in> set required_keys) (map fst ?items)"
  define Q where "Q = (\<lambda>k v.
             (k \<in> {''add'', ''enabled'', ''remove'', ''required''} \<and> (\<exists>b. v = Json (JBool b)))
             \<or> (k = ''group'' \<and> (\<exists>s. v = Json (JString s)))
             \<or> (k = ''page'' \<and> m = ''MassMessageListContent''))"
  have keys: "map fst ?al = map fst kvs"
    by (induction kvs) auto
  have d: "distinct (map fst ?al)"
    unfolding keys by (rule assms(1))
  have items: "set ?items = insert (''page'', PageObj t) {x \<in> set ?al. fst x \<noteq> ''page''}"
    using d by (rule set_update_distinct)
  have pages: "\<forall>(k, v)\<in>set ?items. k = ''page'' \<longrightarrow> v = PageObj t"
    unfolding items by auto
  have al: "set ?al = (\<lambda>(k, v). (k, Json v)) ` set kvs"
    by simp
  have q1: "(\<forall>(k, v)\<in>set ?items. Q k v) =
      (Q ''page'' (PageObj t) \<and> (\<forall>(k, v)\<in>set kvs. k \<noteq> ''page'' \<longrightarrow> Q k (Json v)))"
    unfolding items al by force
  have q2: "Q ''page'' (PageObj t) = (m = ''MassMessageListContent'')"
    by (simp add: Q_def)
  define P where "P = (\<lambda>k v.
        k = ''page''
        \<or> (k \<in> {''add'', ''enabled'', ''remove'', ''required''} \<and> (\<exists>b. v = JBool b))
        \<or> (k = ''group'' \<and> (\<exists>s. v = JString s)))"
  have q3: "(k \<noteq> ''page'' \<longrightarrow> Q k (Json v)) = P k v" for k v
    by (auto simp add: Q_def P_def)
  have ok: "(\<forall>(k, v)\<in>set ?items. Q k v)
     = ((\<forall>(k, v)\<in>set kvs. P k v) \<and> m = ''MassMessageListContent'')"
    by (simp only: q1 q2 q3 conj_commute)
  have dk: "distinct (map fst ?items)"
    using d by (simp add: distinct_update)
  then have dh: "distinct ?hk" by simp
  have mk: "map fst ?items =
      (if ''page'' \<in> set (map fst kvs) then map fst kvs else map fst kvs @ [''page''])"
    using update_keys [of "''page''" "PageObj t" ?al] by (simp only: keys)
  have "set (map fst ?items) = insert ''page'' (fst ` set kvs)"
    by (simp only: mk) auto
  then have sh: "set ?hk = {k \<in> insert ''page'' (fst ` set kvs). k \<in> set required_keys}"
    by auto
  have "(sort ?hk = sort required_keys) = (set ?hk = set required_keys)"
    using dh by (rule sort_eq_iff_set_eq) (simp add: required_keys_def)
  also have "\<dots> = ({k \<in> insert ''page'' (fst ` set kvs). k \<in> {''enabled'', ''group'', ''page''}}
      = {''enabled'', ''group'', ''page''})"
    by (simp only: sh) (simp add: required_keys_def)
  also have "\<dots> = (''enabled'' \<in> fst ` set kvs \<and> ''group'' \<in> fst ` set kvs)"
    by (rule required_keys_present) simp_all
  finally have srt: "(sort ?hk = sort required_keys) =
      (''enabled'' \<in> fst ` set kvs \<and> ''group'' \<in> fst ` set kvs)" .
  have ci: "check_items content_model ?items [] =
      (if \<forall>(k, v)\<in>set ?items. Q k v then Inr (Some ?hk) else Inr None)"
    using check_items_result [where content_model = content_model and t = t
        and has_keys = "[]", OF assms(2) pages]
    by (simp add: Q_def)
  show ?thesis
    unfolding validate_page_config_def json.case ci ok
    by (simp add: srt P_def)
qed

text \<open>Claim C7. \<^verbatim>\<open>validate_config\<close> answers \<^verbatim>\<open>False\<close> for a configuration that is no
  object. For an object whose lists are configured by objects (each key once) and whose pages
  have a content model, it answers \<^verbatim>\<open>True\<close> exactly when every list has the keys
  \<^verbatim>\<open>enabled\<close> and \<^verbatim>\<open>group\<close>, no key other than \<^verbatim>\<open>add\<close>, \<^verbatim>\<open>enabled\<close>, \<^verbatim>\<open>remove\<close>,
  \<^verbatim>\<open>required\<close>, \<^verbatim>\<open>group\<close> and \<^verbatim>\<open>page\<close>, a boolean under each of the four switches, one
  string under \<^verbatim>\<open>group\<close>, and a page of the content model \<^verbatim>\<open>MassMessageListContent\<close>.
  The key \<^verbatim>\<open>page\<close> is never missing, since the function stores it itself; and a group given
  as a list of group names is rejected, only a single name is accepted.\<close>

theorem C7_validate_config_accepts:
  assumes "\<forall>(t, pc)\<in>set entries. \<exists>kvs m. pc = JObject kvs \<and> distinct (map fst kvs)
      \<and> content_model t = Inr m"
  shows "validate_config content_model (JObject entries) =
     Inr (\<forall>(t, pc)\<in>set entries. \<exists>kvs. pc = JObject kvs
           \<and> (\<forall>(k, v)\<in>set kvs.
                 k = ''page''
                 \<or> (k \<in> {''add'', ''enabled'', ''remove'', ''required''} \<and> (\<exists>b. v = JBool b))
                 \<or> (k = ''group'' \<and> (\<exists>s. v = JString s)))
           \<and> content_model t = Inr ''MassMessageListContent''
           \<and> ''enabled'' \<in> fst ` set kvs \<and> ''group'' \<in> fst ` set kvs)
     \<and> validate_config content_model JNull = Inr False
     \<and> validate_config content_model (JArray js) = Inr False"
proof -
  define A where "A = (\<lambda>t pc. \<exists>kvs. pc = JObject kvs
           \<and> (\<forall>(k, v)\<in>set kvs.
                 k = ''page''
                 \<or> (k \<in> {''add'', ''enabled'', ''remove'', ''required''} \<and> (\<exists>b. v = JBool b))
                 \<or> (k = ''group'' \<and> (\<exists>s. v = JString s)))
           \<and> content_model t = Inr ''MassMessageListContent''
           \<and> ''enabled'' \<in> fst ` set kvs \<and> ''group'' \<in> fst ` set kvs)"
  have "validate_entries content_model entries = Inr (\<forall>(t, pc)\<in>set entries. A t pc)"
    using assms
  proof (induction entries)
    case Nil
    then show ?case by simp
  next
    case (Cons e entries)
    obtain t pc where e: "e = (t, pc)" by (cases e) auto
    with Cons.prems obtain kvs m where pc: "pc = JObject kvs" and d: "distinct (map fst kvs)"
      and m: "content_model t = Inr m" by auto
    have rest: "\<forall>(t, pc)\<in>set entries. \<exists>kvs m. pc = JObject kvs \<and> distinct (map fst kvs)
      \<and> content_model t = Inr m"
      using Cons.prems by simp
    have "validate_page_config content_model t (JObject kvs) = Inr (A t (JObject kvs))"
      unfolding A_def
      by (simp only: validate_page_config_accepts
            [where content_model = content_model and t = t, OF d m] m json.inject sum.inject
            simp_thms ex_simps)
    then have "validate_entries content_model (e # entries) =
        Inr (A t pc \<and> (\<forall>(t, pc)\<in>set entries. A t pc))"
      by (simp add: e pc Cons.IH [OF rest])
    then show ?case by (simp add: e)
  qed
  then show ?thesis
    by (simp add: validate_config_def A_def)
qed

theorem C7_validate_config_accepts_witness:
  "validate_config (\<lambda>t. Inr ''MassMessageListContent'')
      (JObject [(''List'', JObject [(''enabled'', JBool True), (''group'', JString ''sysop''),
                                    (''add'', JBool True)])])
     = Inr True"
proof -
  have 1: "\<forall>(t, pc)\<in>set [(''List'', JObject [(''enabled'', JBool True),
        (''group'', JString ''sysop''), (''add'', JBool True)])].
      \<exists>kvs m. pc = JObject kvs \<and> distinct (map fst kvs)
      \<and> (\<lambda>t. Inr ''MassMessageListContent'' :: error + string) t = Inr m"
    by simp
  from C7_validate_config_accepts [where content_model = "\<lambda>t. Inr ''MassMessageListContent''",
      OF 1]
  show ?thesis by auto
qed

theorem C7_group_list_rejected:
  "validate_config (\<lambda>t. Inr ''MassMessageListContent'')
      (JObject [(''List'', JObject [(''enabled'', JBool True),
                                    (''group'', JArray [JString ''sysop'', JString ''bot''])])])
     = Inr False
   \<and> validate_config (\<lambda>t. Inr ''MassMessageListContent'')
      (JObject [(''List'', JObject [(''enabled'', JBool True), (''group'', JString ''sysop'')])])
     = Inr True"
  by (simp add: validate_config_def validate_page_config_def required_keys_def)

end
